theory Spec2Isabelle
  imports Complex_Main
begin

section \<open>Miniature GPT notebook: causal mask, embedding, decoder block, sampler\<close>

text \<open>
  The development follows the code cells of the notebook
  \<^verbatim>\<open>GPU_Emissions_text_generation_with_miniature_gpt_ct.ipynb\<close>.
  Tensors are nested lists: a tensor of shape (batch, seq) is a list of \<open>batch\<close> lists of
  length \<open>seq\<close>. Python integers are \<open>int\<close> wherever a value can be negative.
\<close>

subsection \<open>The causal mask\<close>

text \<open>
  \<^verbatim>\<open>
  def causal_attention_mask(batch_size, n_dest, n_src, dtype):
      i = ops.arange(n_dest)[:, None]
      j = ops.arange(n_src)
      m = i >= j - n_src + n_dest
      mask = ops.cast(m, dtype)
      mask = ops.reshape(mask, [1, n_dest, n_src])
      mult = ops.concatenate(
          [ops.expand_dims(batch_size, -1), ops.convert_to_tensor([1, 1])], 0
      )
      return ops.tile(mask, mult)
  \<close>
  \<open>arange n\<close> is \<open>[0..<n]\<close>; the comparison is made on integers, since
  \<open>j - n_src\<close> is negative. The argument \<open>dtype\<close> is represented by the conversion
  that \<open>ops.cast\<close> performs for it: the identity for \<open>"bool"\<close>. Tiling by
  \<open>[batch_size, 1, 1]\<close> repeats the one mask \<open>batch_size\<close> times.
\<close>

definition causal_attention_mask :: "nat \<Rightarrow> nat \<Rightarrow> nat \<Rightarrow> (bool \<Rightarrow> 'a) \<Rightarrow> 'a list list list" where
  "causal_attention_mask batch_size n_dest n_src dtype =
     (let m = map (\<lambda>i. map (\<lambda>j. int i \<ge> int j - int n_src + int n_dest) [0..<n_src]) [0..<n_dest];
          mask = map (map dtype) m
      in replicate batch_size mask)"

definition dtype_bool :: "bool \<Rightarrow> bool" where
  "dtype_bool b = b"

subsection \<open>Python values, errors and the store\<close>

text \<open>
  Every \<open>raise\<close> that can be reached is a value: \<open>IndexError\<close> for an index out of
  range, \<open>ZeroDivisionError\<close> for \<open>%\<close> by zero, \<open>ValueError\<close> for the argument checks of
  \<open>np.random.choice\<close>, \<open>InvalidArgumentError\<close> for the argument checks of the tensor
  operations (\<open>top_k\<close>, the embedding lookup).
\<close>

datatype py_error = IndexError | ZeroDivisionError | ValueError | InvalidArgumentError

text \<open>Indexing \<open>xs[i]\<close> of a Python list or a NumPy array: a negative index counts from the end.\<close>

definition py_index :: "'a list \<Rightarrow> int \<Rightarrow> py_error + 'a" where
  "py_index xs i =
     (if 0 \<le> i \<and> i < int (length xs) then Inr (xs ! nat i)
      else if i < 0 \<and> - int (length xs) \<le> i then Inr (xs ! nat (int (length xs) + i))
      else Inl IndexError)"

text \<open>
  Python lists are objects that are reached through references, and \<open>append\<close> changes the
  object. The store maps each address to the list that lives there; \<open>next_addr\<close> is the next
  unused address. The global NumPy generator and the standard output are part of the state too:
  \<open>random_state\<close> is the sequence of uniform variates in \<open>[0, 1)\<close> that the generator will
  deliver, \<open>stdout\<close> the texts printed so far.
\<close>

type_synonym addr = nat

record pystate =
  heap :: "addr \<Rightarrow> int list option"
  next_addr :: addr
  random_state :: "nat \<Rightarrow> real"
  stdout :: "string list"

definition contents :: "pystate \<Rightarrow> addr \<Rightarrow> int list" where
  "contents s a = (case heap s a of None \<Rightarrow> [] | Some xs \<Rightarrow> xs)"

text \<open>A list display or comprehension builds a new list object.\<close>

definition new_list :: "int list \<Rightarrow> pystate \<Rightarrow> addr \<times> pystate" where
  "new_list xs s =
     (next_addr s, s\<lparr>heap := (heap s)(next_addr s \<mapsto> xs), next_addr := Suc (next_addr s)\<rparr>)"

text \<open>\<^verbatim>\<open>xs.append(x)\<close> changes the object at the address of \<open>xs\<close>.\<close>

definition list_append :: "addr \<Rightarrow> int \<Rightarrow> pystate \<Rightarrow> pystate" where
  "list_append a x s = s\<lparr>heap := (heap s)(a \<mapsto> contents s a @ [x])\<rparr>"

text \<open>\<^verbatim>\<open>random_sample()\<close>: the next uniform variate; the generator moves on.\<close>

definition random_sample :: "pystate \<Rightarrow> real \<times> pystate" where
  "random_sample s = (random_state s 0, s\<lparr>random_state := (\<lambda>n. random_state s (Suc n))\<rparr>)"

definition print :: "string \<Rightarrow> pystate \<Rightarrow> pystate" where
  "print txt s = s\<lparr>stdout := stdout s @ [txt]\<rparr>"

subsection \<open>Constants of the notebook\<close>

text \<open>
  \<^verbatim>\<open>
  vocab_size = 20000  # Only consider the top 20k words
  maxlen = 80  # Max sequence size
  \<close>
\<close>

definition vocab_size :: nat where
  "vocab_size = 20000"

definition maxlen :: nat where
  "maxlen = 80"

subsection \<open>Library operations used by the sampler\<close>

text \<open>
  The tensor and NumPy operations that \<open>sample_from\<close> calls are library code. Each is
  written out from its documented behaviour, over the real numbers in place of 32-bit floats.

  \<^verbatim>\<open>ops.top_k(x, k, sorted=True)\<close> returns the \<open>k\<close> largest entries of \<open>x\<close> in descending
  order together with their indices; of two equal entries the one with the lower index comes
  first. It refuses a negative \<open>k\<close> and a \<open>k\<close> larger than the number of entries.
\<close>

definition top_k :: "real list \<Rightarrow> int \<Rightarrow> py_error + (real list \<times> int list)" where
  "top_k x kk =
     (if kk < 0 \<or> int (length x) < kk then Inl InvalidArgumentError
      else let indices = take (nat kk) (sort_key (\<lambda>i. - (x ! i)) [0..<length x])
           in Inr (map (\<lambda>i. x ! i) indices, map int indices))"

text \<open>\<^verbatim>\<open>keras.activations.softmax\<close> normalises the exponentials along the last axis.\<close>

definition softmax_row :: "real list \<Rightarrow> real list" where
  "softmax_row xs = map (\<lambda>x. exp x / sum_list (map exp xs)) xs"

definition softmax :: "real list list \<Rightarrow> real list list" where
  "softmax xss = map softmax_row xss"

text \<open>
  \<^verbatim>\<open>np.random.choice(a, p=p)\<close> with one sample: after its argument checks it draws by
  inversion of the cumulative distribution,
  \<^verbatim>\<open>
      cdf = p.cumsum()
      cdf /= cdf[-1]
      uniform_samples = self.random_sample(shape)
      idx = cdf.searchsorted(uniform_samples, side='right')
      return a[idx]
  \<close>
  \<open>choice_atol\<close> is the tolerance of the check that the probabilities sum to one, the square
  root of the machine epsilon of 32-bit floats.
\<close>

fun cumsum_from :: "real \<Rightarrow> real list \<Rightarrow> real list" where
  "cumsum_from acc [] = []"
| "cumsum_from acc (x # xs) = (acc + x) # cumsum_from (acc + x) xs"

definition cumsum :: "real list \<Rightarrow> real list" where
  "cumsum xs = cumsum_from 0 xs"

text \<open>The insertion point to the right of every entry that is at most \<open>v\<close>, in a sorted array.\<close>

definition searchsorted_right :: "real list \<Rightarrow> real \<Rightarrow> nat" where
  "searchsorted_right cdf v = length (takeWhile (\<lambda>c. c \<le> v) cdf)"

definition choice_atol :: real where
  "choice_atol = sqrt (1 / 2 ^ 23)"

definition np_random_choice :: "int list \<Rightarrow> real list \<Rightarrow> pystate \<Rightarrow> (py_error + int) \<times> pystate" where
  "np_random_choice a p s =
     (if a = [] then (Inl ValueError, s)
      else if length p \<noteq> length a then (Inl ValueError, s)
      else if (\<exists>x \<in> set p. x < 0) then (Inl ValueError, s)
      else if \<bar>sum_list p - 1\<bar> > choice_atol then (Inl ValueError, s)
      else let cdf = cumsum p;
               cdf = map (\<lambda>c. c / last cdf) cdf;
               (uniform_samples, s') = random_sample s;
               idx = searchsorted_right cdf uniform_samples
           in (py_index a (int idx), s'))"

subsection \<open>The text generator\<close>

text \<open>
  \<^verbatim>\<open>
  def __init__(self, max_tokens, start_tokens, index_to_word, top_k=10, print_every=1):
      self.max_tokens = max_tokens
      self.start_tokens = start_tokens
      self.index_to_word = index_to_word
      self.print_every = print_every
      self.k = top_k
  \<close>
  The field \<open>start_tokens\<close> holds a reference to the caller's list. No statement of the
  constructor raises, so it returns the object for every argument.
\<close>

record TextGenerator =
  max_tokens :: int
  start_tokens :: addr
  index_to_word :: "string list"
  print_every :: int
  k :: int

definition TextGenerator_init ::
    "int \<Rightarrow> addr \<Rightarrow> string list \<Rightarrow> int \<Rightarrow> int \<Rightarrow> py_error + TextGenerator" where
  "TextGenerator_init max_tokens_arg start_tokens_arg index_to_word_arg top_k_arg print_every_arg =
     Inr \<lparr>max_tokens = max_tokens_arg, start_tokens = start_tokens_arg,
          index_to_word = index_to_word_arg, print_every = print_every_arg, k = top_k_arg\<rparr>"

text \<open>
  \<^verbatim>\<open>
  def sample_from(self, logits):
      logits, indices = ops.top_k(logits, k=self.k, sorted=True)
      indices = np.asarray(indices).astype("int32")
      preds = keras.activations.softmax(ops.expand_dims(logits, 0))[0]
      preds = np.asarray(preds).astype("float32")
      return np.random.choice(indices, p=preds)
  \<close>
\<close>

definition sample_from :: "TextGenerator \<Rightarrow> real list \<Rightarrow> pystate \<Rightarrow> (py_error + int) \<times> pystate" where
  "sample_from self logits s =
     (case top_k logits (k self) of
        Inl e \<Rightarrow> (Inl e, s)
      | Inr (logits', indices) \<Rightarrow>
          let preds = softmax [logits'] ! 0
          in np_random_choice indices preds s)"

text \<open>
  \<^verbatim>\<open>
  def detokenize(self, number):
      return self.index_to_word[number]
  \<close>
\<close>

definition detokenize :: "TextGenerator \<Rightarrow> int \<Rightarrow> py_error + string" where
  "detokenize self number = py_index (index_to_word self) number"

text \<open>
  The window that one pass of the loop hands to the model, and the row it samples from:
  \<^verbatim>\<open>
      pad_len = maxlen - len(start_tokens)
      sample_index = len(start_tokens) - 1
      if pad_len < 0:
          x = start_tokens[:maxlen]
          sample_index = maxlen - 1
      elif pad_len > 0:
          x = start_tokens + [0] * pad_len
      else:
          x = start_tokens
  \<close>
\<close>

definition input_window :: "int list \<Rightarrow> int list \<times> int" where
  "input_window toks =
     (let pad_len = int maxlen - int (length toks);
          sample_index = int (length toks) - 1
      in if pad_len < 0 then (take maxlen toks, int maxlen - 1)
         else if pad_len > 0 then (toks @ replicate (nat pad_len) 0, sample_index)
         else (toks, sample_index))"

text \<open>
  The loop of \<open>on_epoch_end\<close>. \<open>toks\<close> is the address of the local list \<open>start_tokens\<close>,
  \<open>tokens_generated\<close> the address of the list of that name. The model is a parameter:
  \<open>model [x]\<close> is the first output \<open>y\<close> of \<^verbatim>\<open>self.model.predict(np.array([x]))\<close>, a batch
  of one matrix with a row of logits for each position.
  \<^verbatim>\<open>
      while num_tokens_generated <= self.max_tokens:
          (the window x and sample_index, as above)
          x = np.array([x])
          y, _ = self.model.predict(x, verbose=0)
          sample_token = self.sample_from(y[0][sample_index])
          tokens_generated.append(sample_token)
          start_tokens.append(sample_token)
          num_tokens_generated = len(tokens_generated)
  \<close>
\<close>

lemma np_random_choice_heap:
  "np_random_choice a p s = (r, s') \<Longrightarrow> heap s' = heap s"
  by (auto simp: np_random_choice_def random_sample_def Let_def split: if_splits prod.splits)

lemma sample_from_heap:
  "sample_from self logits s = (r, s') \<Longrightarrow> heap s' = heap s"
  by (auto simp: sample_from_def Let_def split: sum.splits prod.splits dest: np_random_choice_heap)

lemma contents_list_append:
  "contents (list_append a x s) b = (if b = a then contents s a @ [x] else contents s b)"
  by (simp add: list_append_def contents_def)

function on_epoch_end_loop ::
    "(int list list \<Rightarrow> py_error + real list list list) \<Rightarrow> TextGenerator \<Rightarrow> addr \<Rightarrow> addr \<Rightarrow> int
       \<Rightarrow> pystate \<Rightarrow> (py_error + unit) \<times> pystate" where
  "on_epoch_end_loop model self toks tokens_generated num_tokens_generated s =
     (if num_tokens_generated \<le> max_tokens self then
        (case input_window (contents s toks) of (x, sample_index) \<Rightarrow>
         (case model [x] of
            Inl e \<Rightarrow> (Inl e, s)
          | Inr y \<Rightarrow>
         (case py_index y 0 of
            Inl e \<Rightarrow> (Inl e, s)
          | Inr y0 \<Rightarrow>
         (case py_index y0 sample_index of
            Inl e \<Rightarrow> (Inl e, s)
          | Inr row \<Rightarrow>
         (case sample_from self row s of
            (Inl e, s1) \<Rightarrow> (Inl e, s1)
          | (Inr sample_token, s1) \<Rightarrow>
              (let s2 = list_append tokens_generated sample_token s1;
                   s3 = list_append toks sample_token s2
               in on_epoch_end_loop model self toks tokens_generated
                    (int (length (contents s3 tokens_generated))) s3))))))
      else (Inr (), s))"
  by pat_completeness auto
termination
proof (relation "measure (\<lambda>(model, self, toks, tokens_generated, num_tokens_generated, s).
          if num_tokens_generated \<le> max_tokens self
          then 1 + nat (max_tokens self + 1 - int (length (contents s tokens_generated)))
          else 0)", goal_cases)
  case 1
  show ?case by simp
next
  case (2 model self toks tokens_generated num_tokens_generated s x sample_index y y0 row r s1
          sample_token s2 s3)
  from 2 have "heap s1 = heap s"
    using sample_from_heap by metis
  then have "contents s1 tokens_generated = contents s tokens_generated"
    by (simp add: contents_def)
  then have "length (contents s3 tokens_generated) > length (contents s tokens_generated)"
    using 2 by (auto simp: contents_list_append)
  then show ?case using 2 by auto
qed

declare on_epoch_end_loop.simps [simp del]

text \<open>Applying a function that can raise to every element of a list, left to right.\<close>

fun map_result :: "('a \<Rightarrow> py_error + 'b) \<Rightarrow> 'a list \<Rightarrow> py_error + 'b list" where
  "map_result f [] = Inr []"
| "map_result f (x # xs) =
     (case f x of
        Inl e \<Rightarrow> Inl e
      | Inr y \<Rightarrow> (case map_result f xs of Inl e \<Rightarrow> Inl e | Inr ys \<Rightarrow> Inr (y # ys)))"

text \<open>\<^verbatim>\<open>sep.join(words)\<close>\<close>

fun join :: "string \<Rightarrow> string list \<Rightarrow> string" where
  "join sep [] = []"
| "join sep [w] = w"
| "join sep (w # ws) = w @ sep @ join sep ws"

text \<open>
  \<^verbatim>\<open>
  def on_epoch_end(self, epoch, logs=None):
      start_tokens = [_ for _ in self.start_tokens]
      if (epoch + 1) % self.print_every != 0:
          return
      num_tokens_generated = 0
      tokens_generated = []
      while num_tokens_generated <= self.max_tokens:
          ...
      txt = " ".join(
          [self.detokenize(_) for _ in self.start_tokens + tokens_generated]
      )
      print(f"generated text:\n{txt}\n")
  \<close>
  The comprehension in the first line builds a new list object from the elements of
  \<open>self.start_tokens\<close>. Lists that no statement changes after they are built (the window
  \<open>x\<close>, the argument of \<open>join\<close>) are plain values. Python's \<open>%\<close> takes the sign of the
  divisor, as \<open>mod\<close> on \<open>int\<close> does, and raises for a zero divisor. The argument of \<open>print\<close>
  is recorded as one entry of \<open>stdout\<close>.
\<close>

definition on_epoch_end ::
    "(int list list \<Rightarrow> py_error + real list list list) \<Rightarrow> TextGenerator \<Rightarrow> int
       \<Rightarrow> pystate \<Rightarrow> (py_error + unit) \<times> pystate" where
  "on_epoch_end model self epoch s =
     (case new_list (contents s (start_tokens self)) s of (toks, s0) \<Rightarrow>
        if print_every self = 0 then (Inl ZeroDivisionError, s0)
        else if (epoch + 1) mod print_every self \<noteq> 0 then (Inr (), s0)
        else (case new_list [] s0 of (tokens_generated, s1) \<Rightarrow>
          (case on_epoch_end_loop model self toks tokens_generated 0 s1 of
             (Inl e, s2) \<Rightarrow> (Inl e, s2)
           | (Inr _, s2) \<Rightarrow>
               (case map_result (detokenize self)
                       (contents s2 (start_tokens self) @ contents s2 tokens_generated) of
                  Inl e \<Rightarrow> (Inl e, s2)
                | Inr words \<Rightarrow>
                    (let txt = join '' '' words
                     in (Inr (), print (''generated text:'' @ [CHR 0x0A] @ txt @ [CHR 0x0A]) s2))))))"

text \<open>
  A sequence of invocations of the callback, one for each epoch that the training procedure
  completes, with the model as it is at the end of that epoch; an exception ends the sequence.
\<close>

fun on_epoch_ends ::
    "TextGenerator \<Rightarrow> ((int list list \<Rightarrow> py_error + real list list list) \<times> int) list
       \<Rightarrow> pystate \<Rightarrow> (py_error + unit) \<times> pystate" where
  "on_epoch_ends self [] s = (Inr (), s)"
| "on_epoch_ends self ((model, epoch) # calls) s =
     (case on_epoch_end model self epoch s of
        (Inl e, s') \<Rightarrow> (Inl e, s')
      | (Inr _, s') \<Rightarrow> on_epoch_ends self calls s')"

subsection \<open>Token and position embedding\<close>

text \<open>
  \<open>layers.Embedding(input_dim, output_dim)\<close> owns a table of \<open>input_dim\<close> rows and looks
  every index of its input up in it with \<open>ops.take\<close>: a negative index is first increased by
  the number of rows, and an index that is then still outside the table is refused. A row is a
  value of a type \<open>'r\<close> with an addition, the elementwise sum of vectors of \<open>embed_dim\<close>
  numbers.
\<close>

definition Embedding_call :: "'r list \<Rightarrow> int \<Rightarrow> py_error + 'r" where
  "Embedding_call embeddings i =
     (let n = int (length embeddings);
          j = (if i < 0 then i + n else i)
      in if 0 \<le> j \<and> j < n then Inr (embeddings ! nat j) else Inl InvalidArgumentError)"

text \<open>The second entry of the shape of a rectangular tensor (batch, seq, ...).\<close>

definition dim1 :: "'a list list \<Rightarrow> nat" where
  "dim1 t = (case t of [] \<Rightarrow> 0 | x # _ \<Rightarrow> length x)"

text \<open>
  \<^verbatim>\<open>
  class TokenAndPositionEmbedding(layers.Layer):
      def __init__(self, maxlen, vocab_size, embed_dim):
          super().__init__()
          self.token_emb = layers.Embedding(input_dim=vocab_size, output_dim=embed_dim)
          self.pos_emb = layers.Embedding(input_dim=maxlen, output_dim=embed_dim)

      def call(self, x):
          maxlen = ops.shape(x)[-1]
          positions = ops.arange(0, maxlen, 1)
          positions = self.pos_emb(positions)
          x = self.token_emb(x)
          return x + positions
  \<close>
  The input \<open>x\<close> has shape (batch, seq); the sum broadcasts \<open>positions\<close> over the batch.
  The local \<open>maxlen\<close> of \<open>call\<close> is written \<open>seq_len\<close>.
\<close>

record 'r TokenAndPositionEmbedding =
  token_emb :: "'r list"
  pos_emb :: "'r list"

definition TokenAndPositionEmbedding_call ::
    "('r::plus) TokenAndPositionEmbedding \<Rightarrow> int list list \<Rightarrow> py_error + 'r list list" where
  "TokenAndPositionEmbedding_call self x =
     (let seq_len = dim1 x;
          positions = map int [0..<seq_len]
      in case map_result (Embedding_call (pos_emb self)) positions of
           Inl e \<Rightarrow> Inl e
         | Inr positions \<Rightarrow>
             (case map_result (map_result (Embedding_call (token_emb self))) x of
                Inl e \<Rightarrow> Inl e
              | Inr x \<Rightarrow> Inr (map (\<lambda>row. map2 (+) row positions) x)))"

subsection \<open>The transformer block\<close>

text \<open>
  \<^verbatim>\<open>
  class TransformerBlock(layers.Layer):
      def __init__(self, embed_dim, num_heads, ff_dim, rate=0.1):
          super().__init__()
          self.att = layers.MultiHeadAttention(num_heads, embed_dim)
          self.ffn = keras.Sequential(
              [layers.Dense(ff_dim, activation="relu"), layers.Dense(embed_dim)]
          )
          self.layernorm1 = layers.LayerNormalization(epsilon=1e-6)
          self.layernorm2 = layers.LayerNormalization(epsilon=1e-6)
          self.dropout1 = layers.Dropout(rate)
          self.dropout2 = layers.Dropout(rate)
  \<close>
  The layers are library code; the block is modelled over them. With their weights fixed,
  \<^item> \<open>att\<close> is the attention layer on one example: from the query rows, the value rows and the
    mask of that example it computes one output row for each query row;
  \<^item> \<open>ffn\<close> is the feed-forward network on one row (both \<open>Dense\<close> layers act on the last axis);
  \<^item> \<open>layernorm1\<close> and \<open>layernorm2\<close> normalise one row (the last axis);
  \<^item> \<open>dropout1\<close> and \<open>dropout2\<close> are the rates of the two dropout layers.
\<close>

record 'r TransformerBlock =
  att :: "'r list \<Rightarrow> 'r list \<Rightarrow> bool list list \<Rightarrow> 'r list"
  ffn :: "'r \<Rightarrow> 'r"
  layernorm1 :: "'r \<Rightarrow> 'r"
  layernorm2 :: "'r \<Rightarrow> 'r"
  dropout1 :: real
  dropout2 :: real

text \<open>
  \<open>Dropout.call\<close> of the library:
  \<^verbatim>\<open>
      if training and self.rate > 0:
          return backend.random.dropout(inputs, self.rate, ...)
      return inputs
  \<close>
  \<open>random_dropout\<close> stands for the random masking that the backend would apply.
\<close>

definition Dropout_call :: "real \<Rightarrow> bool \<Rightarrow> ('t \<Rightarrow> 't) \<Rightarrow> 't \<Rightarrow> 't" where
  "Dropout_call rate training random_dropout inputs =
     (if training \<and> rate > 0 then random_dropout inputs else inputs)"

text \<open>The sum of two tensors of the same shape (batch, seq, embed_dim).\<close>

definition tensor_add :: "('r::plus) list list \<Rightarrow> 'r list list \<Rightarrow> 'r list list" where
  "tensor_add a b = map2 (map2 (+)) a b"

text \<open>
  \<^verbatim>\<open>
      def call(self, inputs):
          input_shape = ops.shape(inputs)
          batch_size = input_shape[0]
          seq_len = input_shape[1]
          causal_mask = causal_attention_mask(batch_size, seq_len, seq_len, "bool")
          attention_output = self.att(inputs, inputs, attention_mask=causal_mask)
          attention_output = self.dropout1(attention_output)
          out1 = self.layernorm1(inputs + attention_output)
          ffn_output = self.ffn(out1)
          ffn_output = self.dropout2(ffn_output)
          return self.layernorm2(out1 + ffn_output)
  \<close>
  \<open>training\<close> is the mode that the framework passes to the layers; \<open>noise1\<close> and \<open>noise2\<close>
  are the random maskings of the two dropout layers in this call.
\<close>

definition TransformerBlock_call ::
    "('r::plus) TransformerBlock \<Rightarrow> bool \<Rightarrow> ('r list list \<Rightarrow> 'r list list)
       \<Rightarrow> ('r list list \<Rightarrow> 'r list list) \<Rightarrow> 'r list list \<Rightarrow> 'r list list" where
  "TransformerBlock_call self training noise1 noise2 inputs =
     (let batch_size = length inputs;
          seq_len = dim1 inputs;
          causal_mask = causal_attention_mask batch_size seq_len seq_len dtype_bool;
          attention_output = map2 (\<lambda>x m. att self x x m) inputs causal_mask;
          attention_output = Dropout_call (dropout1 self) training noise1 attention_output;
          out1 = map (map (layernorm1 self)) (tensor_add inputs attention_output);
          ffn_output = map (map (ffn self)) out1;
          ffn_output = Dropout_call (dropout2 self) training noise2 ffn_output
      in map (map (layernorm2 self)) (tensor_add out1 ffn_output))"

subsection \<open>Auxiliary definitions\<close>

text \<open>The positions that \<open>top_k\<close> selects, as natural numbers.\<close>

definition top_indices :: "real list \<Rightarrow> nat \<Rightarrow> nat list" where
  "top_indices x n = take n (sort_key (\<lambda>i. - (x ! i)) [0..<length x])"

text \<open>One pass through the body of the loop of \<open>on_epoch_end\<close>.\<close>

definition loop_pass ::
    "(int list list \<Rightarrow> py_error + real list list list) \<Rightarrow> TextGenerator \<Rightarrow> addr \<Rightarrow> addr
       \<Rightarrow> pystate \<Rightarrow> (py_error + unit) \<times> pystate" where
  "loop_pass model self toks tokens_generated s =
     (case input_window (contents s toks) of (x, sample_index) \<Rightarrow>
      (case model [x] of
         Inl e \<Rightarrow> (Inl e, s)
       | Inr y \<Rightarrow>
      (case py_index y 0 of
         Inl e \<Rightarrow> (Inl e, s)
       | Inr y0 \<Rightarrow>
      (case py_index y0 sample_index of
         Inl e \<Rightarrow> (Inl e, s)
       | Inr row \<Rightarrow>
      (case sample_from self row s of
         (Inl e, s1) \<Rightarrow> (Inl e, s1)
       | (Inr sample_token, s1) \<Rightarrow>
           (Inr (), list_append toks sample_token
                      (list_append tokens_generated sample_token s1)))))))"

subsection \<open>Concrete inputs\<close>

text \<open>
  A small instance on which the functions are run: the prompt \<open>[5, 12, 9]\<close> ("this movie is")
  stored at address 0, a vocabulary of thirteen words, a generator that always delivers
  the variate 0, and a model that gives every position the logits \<open>[1, 2, 9, 4]\<close>.
\<close>

definition example_words :: "string list" where
  "example_words = ['''', ''[UNK]'', ''the'', ''a'', ''and'', ''this'', ''of'', ''to'', ''it'',
                    ''is'', ''in'', ''i'', ''movie'']"

definition example_state :: pystate where
  "example_state =
     \<lparr>heap = (\<lambda>a. None)(0 \<mapsto> [5, 12, 9]), next_addr = 1, random_state = (\<lambda>n. 0), stdout = []\<rparr>"

definition example_generator :: "int \<Rightarrow> int \<Rightarrow> TextGenerator" where
  "example_generator budget width =
     \<lparr>max_tokens = budget, start_tokens = 0, index_to_word = example_words,
      print_every = 1, k = width\<rparr>"

definition example_model :: "int list list \<Rightarrow> py_error + real list list list" where
  "example_model xs = Inr (map (map (\<lambda>t. [1, 2, 9, 4])) xs)"

text \<open>A model that refuses every window whose length is not \<open>maxlen\<close>.\<close>

definition short_window_model :: "int list list \<Rightarrow> py_error + real list list list" where
  "short_window_model xs =
     (if length (hd xs) = maxlen then example_model xs else Inl InvalidArgumentError)"

text \<open>An embedding layer with three tokens and four positions, over integer rows.\<close>

definition example_embedding :: "int TokenAndPositionEmbedding" where
  "example_embedding = \<lparr>token_emb = [10, 20, 30], pos_emb = [1, 2, 3, 4]\<rparr>"

text \<open>
  A block over integer rows: the attention adds to the query row the value rows that the mask
  admits.
\<close>

definition example_att :: "int list \<Rightarrow> int list \<Rightarrow> bool list list \<Rightarrow> int list" where
  "example_att q v m =
     map (\<lambda>i. q ! i + sum_list (map (\<lambda>j. if m ! i ! j then v ! j else 0) [0..<length v]))
       [0..<length q]"

definition example_block :: "int TransformerBlock" where
  "example_block =
     \<lparr>att = example_att, ffn = (\<lambda>r. 2 * r), layernorm1 = (\<lambda>r. r + 1), layernorm2 = (\<lambda>r. r - 3),
      dropout1 = 1 / 10, dropout2 = 1 / 10\<rparr>"

section \<open>Properties\<close>

subsection \<open>Causal mask\<close>

lemma causal_attention_mask_shape:
  "length (causal_attention_mask batch_size n_dest n_src dtype) = batch_size"
  "b < batch_size \<Longrightarrow> length (causal_attention_mask batch_size n_dest n_src dtype ! b) = n_dest"
  "b < batch_size \<Longrightarrow> i < n_dest \<Longrightarrow>
     length (causal_attention_mask batch_size n_dest n_src dtype ! b ! i) = n_src"
  by (simp_all add: causal_attention_mask_def Let_def)

lemma causal_attention_mask_nth:
  "b < batch_size \<Longrightarrow> i < n_dest \<Longrightarrow> j < n_src \<Longrightarrow>
     causal_attention_mask batch_size n_dest n_src dtype ! b ! i ! j =
       dtype (int i \<ge> int j - int n_src + int n_dest)"
  by (simp add: causal_attention_mask_def Let_def)

text \<open>
  Claim C1. For all counts \<open>n_dest\<close> and \<open>n_src\<close> and all indices \<open>i < n_dest\<close>,
  \<open>j < n_src\<close>, the entry \<open>M[i][j]\<close> of the boolean causal mask (in every copy \<open>b\<close> of
  the batch) is true exactly when \<open>i \<ge> j - n_src + n_dest\<close>; when both counts are the
  same \<open>n\<close>, it is true exactly when \<open>i \<ge> j\<close>.
\<close>

theorem causal_mask_entry:
  assumes "b < batch_size" and "i < n_dest" and "j < n_src"
  shows "causal_attention_mask batch_size n_dest n_src dtype_bool ! b ! i ! j
           = (int i \<ge> int j - int n_src + int n_dest)
         \<and> (n_dest = n_src \<longrightarrow>
              causal_attention_mask batch_size n_dest n_src dtype_bool ! b ! i ! j = (i \<ge> j))"
  using assms by (auto simp add: causal_attention_mask_nth dtype_bool_def)

theorem causal_mask_entry_witness:
  "(0::nat) < 2 \<and> (2::nat) < 3 \<and> (1::nat) < 3
   \<and> causal_attention_mask 2 3 3 dtype_bool ! 0 ! 2 ! 1 = (int 2 \<ge> int 1 - int 3 + int 3)
   \<and> causal_attention_mask 2 3 3 dtype_bool ! 0 ! 2 ! 1 = ((2::nat) \<ge> 1)
   \<and> causal_attention_mask 2 3 3 dtype_bool ! 0 ! 2 ! 1"
  using causal_mask_entry [of 0 2 2 3 1 3] by simp

subsection \<open>The sampler's window\<close>

lemma input_window_length: "length (fst (input_window toks)) = maxlen"
  by (auto simp: input_window_def Let_def)

lemma input_window_shorter:
  "length toks < maxlen \<Longrightarrow>
     input_window toks = (toks @ replicate (maxlen - length toks) 0, int (length toks) - 1)"
  by (auto simp: input_window_def Let_def nat_diff_distrib')

lemma input_window_equal:
  "length toks = maxlen \<Longrightarrow> input_window toks = (toks, int maxlen - 1)"
  by (auto simp: input_window_def Let_def)

lemma input_window_longer:
  "length toks > maxlen \<Longrightarrow> input_window toks = (take maxlen toks, int maxlen - 1)"
  by (auto simp: input_window_def Let_def)

subsection \<open>Selection of the largest logits\<close>

lemma top_k_ok:
  "0 \<le> kk \<Longrightarrow> kk \<le> int (length x) \<Longrightarrow>
     top_k x kk = Inr (map (\<lambda>i. x ! i) (top_indices x (nat kk)), map int (top_indices x (nat kk)))"
  by (simp add: top_k_def top_indices_def Let_def)

lemma top_k_error:
  "kk < 0 \<or> int (length x) < kk \<Longrightarrow> top_k x kk = Inl InvalidArgumentError"
  by (auto simp add: top_k_def)

lemma length_top_indices: "n \<le> length x \<Longrightarrow> length (top_indices x n) = n"
  by (simp add: top_indices_def)

lemma distinct_top_indices: "distinct (top_indices x n)"
  by (simp add: top_indices_def distinct_take)

lemma set_top_indices: "i \<in> set (top_indices x n) \<Longrightarrow> i < length x"
proof -
  assume "i \<in> set (top_indices x n)"
  then have "i \<in> set (sort_key (\<lambda>i. - (x ! i)) [0..<length x])"
    unfolding top_indices_def by (rule in_set_takeD)
  then show ?thesis by simp
qed

lemma top_indices_largest:
  assumes "i \<in> set (top_indices x n)" and "j < length x" and "j \<notin> set (top_indices x n)"
  shows "x ! j \<le> x ! i"
proof -
  let ?f = "\<lambda>i. - (x ! i)"
  let ?l = "sort_key ?f [0..<length x]"
  have "j \<in> set ?l" using assms(2) by simp
  then have "j \<in> set (take n ?l) \<union> set (drop n ?l)"
    by (metis append_take_drop_id set_append)
  then have j: "j \<in> set (drop n ?l)"
    using assms(3) by (simp add: top_indices_def)
  have "sorted (map ?f (take n ?l @ drop n ?l))"
    by (simp add: sorted_sort_key del: sort_key_simps)
  then have "\<forall>a \<in> set (take n ?l). \<forall>b \<in> set (drop n ?l). ?f a \<le> ?f b"
    unfolding map_append sorted_append by auto
  then have "?f i \<le> ?f j"
    using assms(1) j by (simp add: top_indices_def)
  then show ?thesis by simp
qed

subsection \<open>Softmax\<close>

lemma sum_list_exp_nonneg: "0 \<le> sum_list (map exp (xs::real list))"
  by (rule sum_list_nonneg) auto

lemma sum_list_exp_pos: "xs \<noteq> [] \<Longrightarrow> 0 < sum_list (map exp (xs::real list))"
proof (cases xs)
  case Nil
  assume "xs \<noteq> []"
  with Nil show ?thesis by simp
next
  case (Cons y ys)
  have "0 < exp y + sum_list (map exp ys)"
    by (rule add_pos_nonneg) (simp_all add: sum_list_exp_nonneg)
  with Cons show ?thesis by simp
qed

lemma sum_list_divide: "sum_list (map (\<lambda>x. f x / (c::real)) xs) = sum_list (map f xs) / c"
  by (induction xs) (auto simp: add_divide_distrib)

lemma length_softmax_row: "length (softmax_row xs) = length xs"
  by (simp add: softmax_row_def)

lemma softmax_row_pos: "p \<in> set (softmax_row xs) \<Longrightarrow> 0 < p"
proof -
  assume p: "p \<in> set (softmax_row xs)"
  then have "xs \<noteq> []" by (auto simp: softmax_row_def)
  then have "0 < sum_list (map exp xs)" by (rule sum_list_exp_pos)
  then show ?thesis using p by (auto simp: softmax_row_def)
qed

lemma sum_list_softmax_row: "xs \<noteq> [] \<Longrightarrow> sum_list (softmax_row xs) = 1"
  using sum_list_exp_pos [of xs] by (simp add: softmax_row_def sum_list_divide)

lemma softmax_singleton: "softmax [xs] ! 0 = softmax_row xs"
  by (simp add: softmax_def)

subsection \<open>Drawing from the restricted distribution\<close>

lemma length_cumsum_from: "length (cumsum_from acc xs) = length xs"
  by (induction xs arbitrary: acc) auto

lemma last_cumsum_from: "xs \<noteq> [] \<Longrightarrow> last (cumsum_from acc xs) = acc + sum_list xs"
proof (induction xs arbitrary: acc)
  case Nil
  then show ?case by simp
next
  case (Cons x xs)
  show ?case
  proof (cases xs)
    case Nil
    then show ?thesis by simp
  next
    case (Cons y ys)
    then have "cumsum_from (acc + x) xs \<noteq> []" by simp
    moreover have "last (cumsum_from (acc + x) xs) = acc + x + sum_list xs"
      using Cons.IH [of "acc + x"] Cons by simp
    ultimately show ?thesis by simp
  qed
qed

lemma cumsum_normalised:
  assumes "p \<noteq> []" and "sum_list p = 1"
  shows "map (\<lambda>c. c / last (cumsum p)) (cumsum p) = cumsum p" and "last (cumsum p) = 1"
    and "cumsum p \<noteq> []"
proof -
  show l: "last (cumsum p) = 1"
    using assms by (simp add: cumsum_def last_cumsum_from)
  show "map (\<lambda>c. c / last (cumsum p)) (cumsum p) = cumsum p"
    by (simp add: l)
  show "cumsum p \<noteq> []"
    using assms(1) length_cumsum_from [of 0 p] by (auto simp: cumsum_def)
qed

lemma takeWhile_stops:
  assumes "x \<in> set xs" and "\<not> P x"
  shows "length (takeWhile P xs) < length xs"
proof (rule ccontr)
  assume "\<not> length (takeWhile P xs) < length xs"
  then have "length (takeWhile P xs) = length xs"
    using length_takeWhile_le [of P xs] by simp
  then have "dropWhile P xs = []"
    using takeWhile_dropWhile_id [of P xs] by (metis append_eq_conv_conj drop_all order_refl)
  then have "\<forall>x \<in> set xs. P x" by simp
  with assms show False by blast
qed

lemma searchsorted_right_less:
  assumes "cdf \<noteq> []" and "v < last cdf"
  shows "searchsorted_right cdf v < length cdf"
  unfolding searchsorted_right_def
  by (rule takeWhile_stops [of "last cdf"]) (use assms in auto)

lemma py_index_nat: "i < length xs \<Longrightarrow> py_index xs (int i) = Inr (xs ! i)"
  by (simp add: py_index_def)

lemma choice_atol_pos: "0 < choice_atol"
  by (simp add: choice_atol_def)

lemma np_random_choice_ok:
  assumes "a \<noteq> []" and "length p = length a" and "\<forall>x \<in> set p. 0 \<le> x" and "sum_list p = 1"
    and "random_state s 0 < 1"
  shows "\<exists>i < length a. np_random_choice a p s = (Inr (a ! i), snd (random_sample s))"
proof -
  have p: "p \<noteq> []" using assms(1,2) by auto
  let ?i = "searchsorted_right (cumsum p) (random_state s 0)"
  have "?i < length (cumsum p)"
    using cumsum_normalised [OF p assms(4)] assms(5) by (intro searchsorted_right_less) auto
  then have i: "?i < length a"
    using assms(2) by (simp add: cumsum_def length_cumsum_from)
  have "\<not> (\<exists>x \<in> set p. x < 0)" using assms(3) by force
  then have "np_random_choice a p s = (py_index a (int ?i), snd (random_sample s))"
    using assms(1,2,4) choice_atol_pos cumsum_normalised(1) [OF p assms(4)]
    by (simp add: np_random_choice_def Let_def random_sample_def)
  then show ?thesis using i by (auto simp: py_index_nat)
qed

lemma searchsorted_right_zero:
  assumes "cdf \<noteq> []" and "0 < hd cdf"
  shows "searchsorted_right cdf 0 = 0"
  using assms by (cases cdf) (auto simp: searchsorted_right_def)

lemma np_random_choice_zero:
  assumes "a \<noteq> []" and "length p = length a" and "\<forall>x \<in> set p. 0 < x" and "sum_list p = 1"
    and "random_state s 0 = 0"
  shows "np_random_choice a p s = (Inr (hd a), snd (random_sample s))"
proof -
  have p: "p \<noteq> []" using assms(1,2) by auto
  then have "0 < hd (cumsum p)"
    using assms(3) by (cases p) (auto simp: cumsum_def)
  then have z: "searchsorted_right (cumsum p) 0 = 0"
    using cumsum_normalised(3) [OF p assms(4)] by (intro searchsorted_right_zero)
  have "\<not> (\<exists>x \<in> set p. x < 0)" using assms(3) by force
  then have "np_random_choice a p s = (py_index a 0, snd (random_sample s))"
    using assms(1,2,4,5) choice_atol_pos cumsum_normalised(1) [OF p assms(4)] z
    by (simp add: np_random_choice_def Let_def random_sample_def)
  then show ?thesis using assms(1) by (cases a) (auto simp: py_index_def)
qed

lemma np_random_choice_empty: "np_random_choice [] p s = (Inl ValueError, s)"
  by (simp add: np_random_choice_def)

subsection \<open>The sampling step\<close>

lemma sample_from_unfold:
  assumes "0 \<le> k self" and "k self \<le> int (length logits)"
  shows "sample_from self logits s =
           np_random_choice (map int (top_indices logits (nat (k self))))
             (softmax_row (map (\<lambda>i. logits ! i) (top_indices logits (nat (k self))))) s"
  using assms by (simp add: sample_from_def top_k_ok softmax_def Let_def)

lemma sample_from_ok:
  assumes "0 < k self" and "k self \<le> int (length logits)" and "random_state s 0 < 1"
  shows "\<exists>i \<in> set (top_indices logits (nat (k self))).
           sample_from self logits s = (Inr (int i), snd (random_sample s))"
proof -
  let ?ix = "top_indices logits (nat (k self))"
  let ?p = "softmax_row (map (\<lambda>i. logits ! i) ?ix)"
  have len: "length ?ix = nat (k self)"
    using assms(2) by (intro length_top_indices) simp
  then have ne: "?ix \<noteq> []" using assms(1) by auto
  have "\<exists>i < length (map int ?ix).
          np_random_choice (map int ?ix) ?p s = (Inr (map int ?ix ! i), snd (random_sample s))"
  proof (rule np_random_choice_ok)
    show "map int ?ix \<noteq> []" using ne by simp
    show "length ?p = length (map int ?ix)" by (simp add: length_softmax_row)
    show "\<forall>x \<in> set ?p. 0 \<le> x" using softmax_row_pos by (metis less_imp_le)
    show "sum_list ?p = 1" using ne by (intro sum_list_softmax_row) simp
    show "random_state s 0 < 1" by (rule assms(3))
  qed
  then obtain i where "i < length ?ix"
    and "np_random_choice (map int ?ix) ?p s = (Inr (int (?ix ! i)), snd (random_sample s))"
    by auto
  then show ?thesis
    using sample_from_unfold [of self logits s] assms(1,2) by (auto intro!: bexI [of _ "?ix ! i"])
qed

lemma sample_from_zero:
  assumes "0 < k self" and "k self \<le> int (length logits)" and "random_state s 0 = 0"
  shows "sample_from self logits s =
           (Inr (int (hd (top_indices logits (nat (k self))))), snd (random_sample s))"
proof -
  let ?ix = "top_indices logits (nat (k self))"
  let ?p = "softmax_row (map (\<lambda>i. logits ! i) ?ix)"
  have len: "length ?ix = nat (k self)"
    using assms(2) by (intro length_top_indices) simp
  then have ne: "?ix \<noteq> []" using assms(1) by auto
  have "np_random_choice (map int ?ix) ?p s = (Inr (hd (map int ?ix)), snd (random_sample s))"
  proof (rule np_random_choice_zero)
    show "map int ?ix \<noteq> []" using ne by simp
    show "length ?p = length (map int ?ix)" by (simp add: length_softmax_row)
    show "\<forall>x \<in> set ?p. 0 < x" using softmax_row_pos by blast
    show "sum_list ?p = 1" using ne by (intro sum_list_softmax_row) simp
    show "random_state s 0 = 0" by (rule assms(3))
  qed
  then show ?thesis
    using sample_from_unfold [of self logits s] assms(1,2) ne by (simp add: hd_map)
qed

lemma sample_from_error:
  assumes "k self \<le> 0 \<or> int (length logits) < k self"
  shows "\<exists>e. sample_from self logits s = (Inl e, s)"
proof (cases "k self = 0")
  case True
  then show ?thesis
    by (simp add: sample_from_def top_k_def Let_def np_random_choice_empty)
next
  case False
  then have "k self < 0 \<or> int (length logits) < k self" using assms by auto
  then show ?thesis by (simp add: sample_from_def top_k_error)
qed

lemma top_indices_example: "top_indices [1, 2, 9, 4] 2 = [2, 3]"
  by (simp add: top_indices_def upt_rec)

lemma top_k_example: "top_k [1, 2, 9, 4] 2 = Inr ([9, 4], [2, 3])"
  by (simp add: top_k_def Let_def upt_rec)

text \<open>
  Claim C5. For every vector of logits and every width \<open>k\<close> with \<open>0 < k\<close> that does not
  exceed the number of logits, the sampling step selects \<open>k\<close> distinct positions of the
  vector whose logits are at least as large as every logit that is not selected, turns exactly
  those \<open>k\<close> values into probabilities with softmax (they sum to one), and returns one of the
  selected positions; so a token drawn from logits over the vocabulary is below \<open>vocab_size\<close>.
  The uniform variate that the generator delivers is below one.
\<close>

theorem sample_from_top_k:
  assumes "0 < k self" and "k self \<le> int (length logits)" and "random_state s 0 < 1"
  shows "\<exists>vals indices t.
           top_k logits (k self) = Inr (vals, indices)
         \<and> length indices = nat (k self) \<and> distinct indices
         \<and> vals = map (\<lambda>i. logits ! nat i) indices
         \<and> (\<forall>i \<in> set indices. 0 \<le> i \<and> i < int (length logits)
               \<and> (\<forall>j < length logits. int j \<notin> set indices \<longrightarrow> logits ! j \<le> logits ! nat i))
         \<and> length (softmax [vals] ! 0) = nat (k self) \<and> sum_list (softmax [vals] ! 0) = 1
         \<and> sample_from self logits s = np_random_choice indices (softmax [vals] ! 0) s
         \<and> sample_from self logits s = (Inr t, snd (random_sample s))
         \<and> t \<in> set indices
         \<and> (length logits = vocab_size \<longrightarrow> 0 \<le> t \<and> t < int vocab_size)"
proof -
  let ?ix = "top_indices logits (nat (k self))"
  let ?vals = "map (\<lambda>i. logits ! i) ?ix"
  have len: "length ?ix = nat (k self)"
    using assms(2) by (intro length_top_indices) simp
  then have ne: "?ix \<noteq> []" using assms(1) by auto
  have tk: "top_k logits (k self) = Inr (?vals, map int ?ix)"
    using assms(1,2) by (simp add: top_k_ok)
  obtain i where i: "i \<in> set ?ix"
    and sf: "sample_from self logits s = (Inr (int i), snd (random_sample s))"
    using sample_from_ok [OF assms] by blast
  have "distinct (map int ?ix)"
    by (simp add: distinct_map distinct_top_indices)
  moreover have "?vals = map (\<lambda>i. logits ! nat i) (map int ?ix)"
    by (simp add: comp_def)
  moreover have "\<forall>i \<in> set (map int ?ix). 0 \<le> i \<and> i < int (length logits)
               \<and> (\<forall>j < length logits. int j \<notin> set (map int ?ix) \<longrightarrow> logits ! j \<le> logits ! nat i)"
    using set_top_indices top_indices_largest by (auto simp: image_iff)
  moreover have "length (softmax [?vals] ! 0) = nat (k self)"
    by (simp add: softmax_singleton length_softmax_row len)
  moreover have "sum_list (softmax [?vals] ! 0) = 1"
    using ne by (simp add: softmax_singleton sum_list_softmax_row)
  moreover have "sample_from self logits s = np_random_choice (map int ?ix) (softmax [?vals] ! 0) s"
    using assms(1,2) by (simp add: sample_from_unfold softmax_singleton)
  moreover have "int i \<in> set (map int ?ix)" using i by simp
  moreover have "length logits = vocab_size \<longrightarrow> 0 \<le> int i \<and> int i < int vocab_size"
    using set_top_indices [OF i] by simp
  ultimately show ?thesis
    using tk sf len by (intro exI [of _ ?vals] exI [of _ "map int ?ix"] exI [of _ "int i"]) simp
qed

theorem sample_from_top_k_witness:
  "0 < k (example_generator 0 2) \<and> k (example_generator 0 2) \<le> int (length [1, 2, 9, 4 :: real])
   \<and> random_state example_state 0 < 1
   \<and> top_k [1, 2, 9, 4] (k (example_generator 0 2)) = Inr ([9, 4], [2, 3])
   \<and> (\<exists>t. sample_from (example_generator 0 2) [1, 2, 9, 4] example_state
              = (Inr t, snd (random_sample example_state)) \<and> t \<in> {2, 3})"
proof -
  have h: "0 < k (example_generator 0 2)" "k (example_generator 0 2) \<le> int (length [1, 2, 9, 4 :: real])"
    "random_state example_state 0 < 1"
    by (simp_all add: example_generator_def example_state_def)
  have tk: "top_k [1, 2, 9, 4] (k (example_generator 0 2)) = Inr ([9, 4], [2, 3])"
    by (simp add: example_generator_def top_k_example)
  from sample_from_top_k [OF h] obtain vals indices t
    where "top_k [1, 2, 9, 4] (k (example_generator 0 2)) = Inr (vals, indices)"
      and "sample_from (example_generator 0 2) [1, 2, 9, 4] example_state
             = (Inr t, snd (random_sample example_state))"
      and "t \<in> set indices"
    by blast
  with tk have "sample_from (example_generator 0 2) [1, 2, 9, 4] example_state
             = (Inr t, snd (random_sample example_state)) \<and> t \<in> {2, 3}"
    by auto
  with h tk show ?thesis by blast
qed

subsection \<open>Construction of the sampler\<close>

text \<open>
  Claim C8 as stated fails: the constructor checks nothing, so it returns a generator for the
  width 0 and for a width above the vocabulary size.
\<close>

theorem init_unchecked_counterexample:
  "\<not> isl (TextGenerator_init 40 0 example_words 0 1)
   \<and> \<not> isl (TextGenerator_init 40 0 example_words (int vocab_size + 1) 1)"
  by (simp add: TextGenerator_init_def)

text \<open>
  Claim C8, amended. For every configuration the constructor succeeds and stores the width as
  given; a width that is \<open>\<le> 0\<close> or exceeds the number of logits is reported by the sampling
  step, which fails before any variate is drawn and leaves the state as it was.
\<close>

theorem init_stores_k_sampling_fails:
  assumes "top_k_arg \<le> 0 \<or> int (length logits) < top_k_arg"
  shows "\<exists>self e. TextGenerator_init max_tokens_arg start_tokens_arg index_to_word_arg top_k_arg
                    print_every_arg = Inr self
                \<and> k self = top_k_arg
                \<and> sample_from self logits s = (Inl e, s)"
proof -
  let ?self = "\<lparr>max_tokens = max_tokens_arg, start_tokens = start_tokens_arg,
                 index_to_word = index_to_word_arg, print_every = print_every_arg, k = top_k_arg\<rparr>"
  have "k ?self \<le> 0 \<or> int (length logits) < k ?self" using assms by simp
  then obtain e where "sample_from ?self logits s = (Inl e, s)"
    using sample_from_error by blast
  then show ?thesis
    by (intro exI [of _ ?self] exI [of _ e]) (simp add: TextGenerator_init_def)
qed

theorem init_stores_k_sampling_fails_witness:
  "(0::int) \<le> 0
   \<and> TextGenerator_init 40 0 example_words 0 1 = Inr ((example_generator 40 0))
   \<and> (\<exists>e. sample_from (example_generator 40 0) [1, 2, 9, 4] example_state = (Inl e, example_state))"
proof -
  have h: "(0::int) \<le> 0 \<or> int (length [1, 2, 9, 4 :: real]) < 0" by simp
  have i: "TextGenerator_init 40 0 example_words 0 1 = Inr (example_generator 40 0)"
    by (simp add: TextGenerator_init_def example_generator_def)
  from init_stores_k_sampling_fails [OF h, of 40 0 example_words 1 example_state] i
  show ?thesis by auto
qed

subsection \<open>The window in every pass of the loop\<close>

lemma loop_model_cong:
  assumes "\<forall>x. length x = maxlen \<longrightarrow> model1 [x] = model2 [x]"
  shows "on_epoch_end_loop model1 self toks g n s = on_epoch_end_loop model2 self toks g n s"
  using assms
proof (induction model1 self toks g n s rule: on_epoch_end_loop.induct)
  case (1 model self toks g n s)
  obtain x si where w: "input_window (contents s toks) = (x, si)"
    by (cases "input_window (contents s toks)")
  then have "length x = maxlen"
    using input_window_length [of "contents s toks"] by simp
  then have m: "model [x] = model2 [x]"
    using 1(2) by simp
  show ?case
    unfolding on_epoch_end_loop.simps [of model self toks g n s]
      on_epoch_end_loop.simps [of model2 self toks g n s]
    using 1 w m by (auto split: sum.splits prod.splits simp: Let_def)
qed

text \<open>
  Claim C10. In every pass of the loop the window handed to the model has length exactly
  \<open>maxlen = 80\<close>, whatever the length of the working sequence: the window built from any
  sequence has that length, and \<open>on_epoch_end\<close> cannot tell apart two models that agree on
  all windows of that length.
\<close>

theorem window_has_length_maxlen:
  assumes "\<forall>x. length x = maxlen \<longrightarrow> model1 [x] = model2 [x]"
  shows "maxlen = 80 \<and> length (fst (input_window toks)) = maxlen
         \<and> on_epoch_end model1 self epoch s = on_epoch_end model2 self epoch s"
  using loop_model_cong [OF assms]
  by (simp add: on_epoch_end_def input_window_length maxlen_def split: prod.splits)

theorem window_has_length_maxlen_witness:
  "maxlen = 80 \<and> length (fst (input_window [5, 12, 9])) = maxlen
   \<and> on_epoch_end example_model (example_generator 0 2) 0 example_state
       = on_epoch_end short_window_model (example_generator 0 2) 0 example_state"
proof -
  have h: "\<forall>x. length x = maxlen \<longrightarrow> example_model [x] = short_window_model [x]"
    by (simp add: short_window_model_def)
  show ?thesis
    by (rule window_has_length_maxlen [OF h])
qed

text \<open>
  Claim C4 on a sequence longer than \<open>maxlen\<close>: for the 81 tokens \<open>1, ..., 81\<close> the window
  is the first 80 tokens \<open>1, ..., 80\<close> with \<open>sample_index = 79\<close>, not the last 80 tokens
  \<open>2, ..., 81\<close> that the claim describes. The other parts of the claim hold, see
  \<open>input_window_shorter\<close> and \<open>input_window_longer\<close>.
\<close>

theorem input_window_longer_keeps_first:
  "input_window (map int [1..<82]) = (map int [1..<81], 79)
   \<and> map int [1..<81] \<noteq> drop (81 - maxlen) (map int [1..<82])"
  by (simp add: input_window_def maxlen_def take_map upt_rec)

subsection \<open>What the loop changes\<close>

lemma loop_unfold:
  "on_epoch_end_loop model self toks g n s =
     (if n \<le> max_tokens self then
        (case loop_pass model self toks g s of
           (Inl e, s') \<Rightarrow> (Inl e, s')
         | (Inr _, s') \<Rightarrow> on_epoch_end_loop model self toks g (int (length (contents s' g))) s')
      else (Inr (), s))"
  by (subst on_epoch_end_loop.simps)
    (simp add: loop_pass_def Let_def split: prod.splits sum.splits)

lemma loop_induct [consumes 0, case_names exit error pass]:
  assumes "\<And>n s. \<not> n \<le> max_tokens self \<Longrightarrow> P n s"
    and "\<And>n s e s'. n \<le> max_tokens self \<Longrightarrow> loop_pass model self toks g s = (Inl e, s') \<Longrightarrow> P n s"
    and "\<And>n s s'. n \<le> max_tokens self \<Longrightarrow> loop_pass model self toks g s = (Inr (), s') \<Longrightarrow>
           P (int (length (contents s' g))) s' \<Longrightarrow> P n s"
  shows "P n s"
proof -
  have "model' = model \<Longrightarrow> self' = self \<Longrightarrow> toks' = toks \<Longrightarrow> g' = g \<Longrightarrow> P n s"
    for model' self' toks' g'
  proof (induction model' self' toks' g' n s rule: on_epoch_end_loop.induct)
    case (1 model' self' toks' g' n s)
    note eqs = "1.prems"
    show ?case
    proof (cases "n \<le> max_tokens self")
      case False
      then show ?thesis by (rule assms(1))
    next
      case True
      obtain r s' where p: "loop_pass model self toks g s = (r, s')"
        by (cases "loop_pass model self toks g s")
      show ?thesis
      proof (cases r)
        case (Inl e)
        with p True show ?thesis by (auto intro: assms(2))
      next
        case (Inr u)
        with p have p': "loop_pass model self toks g s = (Inr (), s')" by simp
        from p' obtain x si y y0 row tok s1
          where "input_window (contents s toks) = (x, si)" and "model [x] = Inr y"
            and "py_index y 0 = Inr y0" and "py_index y0 si = Inr row"
            and "sample_from self row s = (Inr tok, s1)"
            and "s' = list_append toks tok (list_append g tok s1)"
          by (auto simp: loop_pass_def split: prod.splits sum.splits)
        then have "P (int (length (contents s' g))) s'"
          using "1.IH" [of x si y y0 row "Inr tok" s1 tok "list_append g tok s1" s'] True eqs
          by simp
        with True p' show ?thesis by (rule assms(3))
      qed
    qed
  qed
  then show ?thesis by simp
qed

lemma np_random_choice_state:
  "np_random_choice a p s = (r, s') \<Longrightarrow> s' = s \<or> s' = snd (random_sample s)"
  by (auto simp: np_random_choice_def Let_def split: if_splits prod.splits)

lemma sample_from_state:
  "sample_from self logits s = (r, s') \<Longrightarrow> s' = s \<or> s' = snd (random_sample s)"
  by (auto simp: sample_from_def Let_def split: sum.splits prod.splits
      dest: np_random_choice_state)

lemma sample_from_frame:
  assumes "sample_from self logits s = (r, s')"
  shows "heap s' = heap s" and "next_addr s' = next_addr s" and "stdout s' = stdout s"
  using sample_from_state [OF assms] by (auto simp: random_sample_def)

lemma list_append_frame:
  "next_addr (list_append a x s) = next_addr s"
  "stdout (list_append a x s) = stdout s"
  "b \<noteq> a \<Longrightarrow> heap (list_append a x s) b = heap s b"
  by (simp_all add: list_append_def)

lemma loop_pass_cases:
  assumes "loop_pass model self toks g s = (r, s')"
  obtains (error) e where "r = Inl e" and "heap s' = heap s" and "next_addr s' = next_addr s"
      and "stdout s' = stdout s"
  | (ok) tok s1 where "r = Inr ()" and "heap s1 = heap s" and "next_addr s1 = next_addr s"
      and "stdout s1 = stdout s" and "s' = list_append toks tok (list_append g tok s1)"
proof (cases r)
  case (Inl e)
  with assms have "heap s' = heap s \<and> next_addr s' = next_addr s \<and> stdout s' = stdout s"
    by (auto simp: loop_pass_def split: prod.splits sum.splits dest: sample_from_frame)
  with Inl show ?thesis by (auto intro: error)
next
  case (Inr u)
  with assms obtain row tok s1 where "sample_from self row s = (Inr tok, s1)"
    and "s' = list_append toks tok (list_append g tok s1)"
    by (auto simp: loop_pass_def split: prod.splits sum.splits)
  with Inr show ?thesis by (auto intro!: ok [of s1 tok] dest: sample_from_frame)
qed

lemma loop_pass_frame:
  assumes "loop_pass model self toks g s = (r, s')"
  shows "next_addr s' = next_addr s" and "stdout s' = stdout s"
    and "a \<noteq> toks \<Longrightarrow> a \<noteq> g \<Longrightarrow> heap s' a = heap s a"
proof -
  show "next_addr s' = next_addr s"
    using assms by (cases rule: loop_pass_cases) (simp_all add: list_append_frame)
  show "stdout s' = stdout s"
    using assms by (cases rule: loop_pass_cases) (simp_all add: list_append_frame)
  show "heap s' a = heap s a" if "a \<noteq> toks" and "a \<noteq> g"
    using assms that by (cases rule: loop_pass_cases) (simp_all add: list_append_frame)
qed

lemma loop_pass_grows:
  assumes "loop_pass model self toks g s = (r, s')" and "toks \<noteq> g"
  shows "\<exists>new. contents s' toks = contents s toks @ new \<and> contents s' g = contents s g @ new
           \<and> (case r of Inl e \<Rightarrow> new = [] | Inr u \<Rightarrow> length new = 1)"
  using assms(1)
proof (cases rule: loop_pass_cases)
  case (error e)
  then show ?thesis by (simp add: contents_def)
next
  case (ok tok s1)
  have "contents s1 a = contents s a" for a
    using ok(2) by (simp add: contents_def)
  then have "contents s' toks = contents s toks @ [tok]" "contents s' g = contents s g @ [tok]"
    using assms(2) ok(5) by (simp_all add: contents_list_append)
  with ok show ?thesis by simp
qed

lemma loop_exit:
  "\<not> n \<le> max_tokens self \<Longrightarrow> on_epoch_end_loop model self toks g n s = (Inr (), s)"
  by (subst loop_unfold) simp

lemma loop_error:
  "n \<le> max_tokens self \<Longrightarrow> loop_pass model self toks g s = (Inl e, s1) \<Longrightarrow>
     on_epoch_end_loop model self toks g n s = (Inl e, s1)"
  by (subst loop_unfold) simp

lemma loop_next:
  "n \<le> max_tokens self \<Longrightarrow> loop_pass model self toks g s = (Inr u, s1) \<Longrightarrow>
     on_epoch_end_loop model self toks g n s =
       on_epoch_end_loop model self toks g (int (length (contents s1 g))) s1"
  by (subst loop_unfold) simp

lemma loop_frame:
  "on_epoch_end_loop model self toks g n s = (r, s') \<Longrightarrow>
     next_addr s' = next_addr s \<and> stdout s' = stdout s
     \<and> (\<forall>a. a \<noteq> toks \<and> a \<noteq> g \<longrightarrow> heap s' a = heap s a)"
proof (induction n s rule: loop_induct [of self _ model toks g])
  case (exit n s)
  then show ?case by (simp add: loop_exit)
next
  case (error n s e s1)
  then have "s' = s1" by (simp add: loop_error)
  then show ?case
    using loop_pass_frame [OF error(2)] by simp
next
  case (pass n s s1)
  then have "next_addr s' = next_addr s1 \<and> stdout s' = stdout s1
     \<and> (\<forall>a. a \<noteq> toks \<and> a \<noteq> g \<longrightarrow> heap s' a = heap s1 a)"
    by (simp add: loop_next)
  then show ?case
    using loop_pass_frame [OF pass(2)] by simp
qed

lemma loop_grows:
  "on_epoch_end_loop model self toks g n s = (r, s') \<Longrightarrow> toks \<noteq> g \<Longrightarrow>
     \<exists>new. contents s' toks = contents s toks @ new \<and> contents s' g = contents s g @ new"
proof (induction n s rule: loop_induct [of self _ model toks g])
  case (exit n s)
  then show ?case by (simp add: loop_exit)
next
  case (error n s e s1)
  then have "s' = s1" by (simp add: loop_error)
  then show ?case
    using loop_pass_grows [OF error(2,4)] by auto
next
  case (pass n s s1)
  then have "\<exists>new. contents s' toks = contents s1 toks @ new \<and> contents s' g = contents s1 g @ new"
    by (simp add: loop_next)
  then show ?case
    using loop_pass_grows [OF pass(2,5)] by auto
qed

lemma loop_count:
  "on_epoch_end_loop model self toks g n s = (Inr u, s') \<Longrightarrow> toks \<noteq> g \<Longrightarrow>
     n = int (length (contents s g)) \<Longrightarrow>
     int (length (contents s' g)) = max n (max_tokens self + 1)"
proof (induction n s rule: loop_induct [of self _ model toks g])
  case (exit n s)
  then have "s' = s" by (simp add: loop_exit)
  then show ?case using exit by simp
next
  case (error n s e s1)
  then show ?case by (simp add: loop_error)
next
  case (pass n s s1)
  have "int (length (contents s1 g)) = n + 1"
    using loop_pass_grows [OF pass(2,5)] pass(6) by auto
  moreover have "int (length (contents s' g)) = max (int (length (contents s1 g))) (max_tokens self + 1)"
    using pass by (simp add: loop_next)
  ultimately show ?case using pass(1) by simp
qed

subsection \<open>One invocation of the callback\<close>

lemma on_epoch_end_cases:
  assumes "on_epoch_end model self epoch s = (r, s')"
  defines "s0 \<equiv> snd (new_list (contents s (start_tokens self)) s)"
  defines "s1 \<equiv> snd (new_list [] s0)"
  obtains (skip) "print_every self = 0 \<or> (epoch + 1) mod print_every self \<noteq> 0" and "s' = s0"
  | (generate) r2 s2 where "print_every self \<noteq> 0" and "(epoch + 1) mod print_every self = 0"
      and "on_epoch_end_loop model self (next_addr s) (Suc (next_addr s)) 0 s1 = (r2, s2)"
      and "heap s' = heap s2" and "next_addr s' = next_addr s2"
      and "(\<exists>e. r = Inl e \<and> stdout s' = stdout s2) \<or>
           (\<exists>words. r = Inr () \<and> r2 = Inr ()
              \<and> map_result (detokenize self)
                    (contents s2 (start_tokens self) @ contents s2 (Suc (next_addr s))) = Inr words
              \<and> stdout s' = stdout s2 @ [''generated text:'' @ [CHR 0x0A] @ join '' '' words @ [CHR 0x0A]])"
proof -
  have a: "new_list (contents s (start_tokens self)) s = (next_addr s, s0)"
    by (simp add: s0_def new_list_def)
  have b: "new_list [] s0 = (Suc (next_addr s), s1)"
    by (simp add: s1_def s0_def new_list_def)
  show ?thesis
  proof (cases "print_every self = 0 \<or> (epoch + 1) mod print_every self \<noteq> 0")
    case True
    then have "s' = s0"
      using assms(1) by (auto simp: on_epoch_end_def a split: if_splits)
    with True show ?thesis by (rule skip)
  next
    case False
    obtain r2 s2
      where l: "on_epoch_end_loop model self (next_addr s) (Suc (next_addr s)) 0 s1 = (r2, s2)"
      by (cases "on_epoch_end_loop model self (next_addr s) (Suc (next_addr s)) 0 s1")
    have "heap s' = heap s2 \<and> next_addr s' = next_addr s2 \<and>
          ((\<exists>e. r = Inl e \<and> stdout s' = stdout s2) \<or>
             (\<exists>words. r = Inr () \<and> r2 = Inr ()
                \<and> map_result (detokenize self)
                      (contents s2 (start_tokens self) @ contents s2 (Suc (next_addr s))) = Inr words
                \<and> stdout s' = stdout s2 @ [''generated text:'' @ [CHR 0x0A] @ join '' '' words @ [CHR 0x0A]]))"
      using assms(1) False l
      by (auto simp: on_epoch_end_def a b print_def Let_def split: sum.splits)
    then show ?thesis
      using False l by (intro generate [of r2 s2]) auto
  qed
qed

lemma new_list_prompt:
  fixes s self
  defines "s0 \<equiv> snd (new_list (contents s (start_tokens self)) s)"
  defines "s1 \<equiv> snd (new_list [] s0)"
  assumes "start_tokens self < next_addr s"
  shows "heap s0 (start_tokens self) = heap s (start_tokens self)"
    and "heap s1 (start_tokens self) = heap s (start_tokens self)"
    and "next_addr s0 = Suc (next_addr s)" and "next_addr s1 = Suc (Suc (next_addr s))"
    and "contents s0 (next_addr s) = contents s (start_tokens self)"
    and "contents s1 (next_addr s) = contents s (start_tokens self)"
    and "contents s1 (Suc (next_addr s)) = []"
    and "stdout s0 = stdout s" and "stdout s1 = stdout s"
  using assms(3) by (simp_all add: s0_def s1_def new_list_def contents_def)

lemma on_epoch_end_prompt:
  assumes "on_epoch_end model self epoch s = (r, s')" and "start_tokens self < next_addr s"
  shows "heap s' (start_tokens self) = heap s (start_tokens self)"
    and "next_addr s \<le> next_addr s'"
    and "\<exists>new. contents s' (next_addr s) = contents s (start_tokens self) @ new"
proof -
  note nl = new_list_prompt [OF assms(2)]
  have "heap s' (start_tokens self) = heap s (start_tokens self) \<and> next_addr s \<le> next_addr s'
        \<and> (\<exists>new. contents s' (next_addr s) = contents s (start_tokens self) @ new)"
    using assms(1)
  proof (cases rule: on_epoch_end_cases)
    case skip
    then show ?thesis using nl by simp
  next
    case (generate r2 s2)
    note fr = loop_frame [OF generate(3)]
    have "heap s2 (start_tokens self) = heap s (start_tokens self)"
      using fr assms(2) nl(2) by simp
    moreover have "next_addr s2 = Suc (Suc (next_addr s))"
      using fr nl(4) by simp
    moreover have "\<exists>new. contents s2 (next_addr s) = contents s (start_tokens self) @ new"
      using loop_grows [OF generate(3)] nl(6) by auto
    ultimately show ?thesis
      using generate(4,5) by (simp add: contents_def)
  qed
  then show "heap s' (start_tokens self) = heap s (start_tokens self)"
    and "next_addr s \<le> next_addr s'"
    and "\<exists>new. contents s' (next_addr s) = contents s (start_tokens self) @ new"
    by simp_all
qed

lemma length_map_result: "map_result f xs = Inr ys \<Longrightarrow> length ys = length xs"
  by (induction xs arbitrary: ys) (auto split: sum.splits)

lemma on_epoch_end_generated:
  assumes "on_epoch_end model self epoch s = (Inr u, s')" and "start_tokens self < next_addr s"
    and "print_every self \<noteq> 0" and "(epoch + 1) mod print_every self = 0"
  shows "\<exists>new words.
           int (length new) = max 0 (max_tokens self + 1)
         \<and> contents s' (Suc (next_addr s)) = new
         \<and> contents s' (next_addr s) = contents s (start_tokens self) @ new
         \<and> map_result (detokenize self) (contents s (start_tokens self) @ new) = Inr words
         \<and> length words = length (contents s (start_tokens self)) + length new
         \<and> stdout s' = stdout s @ [''generated text:'' @ [CHR 0x0A] @ join '' '' words @ [CHR 0x0A]]"
  using assms(1)
proof (cases rule: on_epoch_end_cases)
  case skip
  with assms(3,4) show ?thesis by simp
next
  case (generate r2 s2)
  note nl = new_list_prompt [OF assms(2)]
  note fr = loop_frame [OF generate(3)]
  from generate(6) obtain words where r2: "r2 = Inr ()"
    and w: "map_result (detokenize self)
              (contents s2 (start_tokens self) @ contents s2 (Suc (next_addr s))) = Inr words"
    and out: "stdout s' = stdout s2 @ [''generated text:'' @ [CHR 0x0A] @ join '' '' words @ [CHR 0x0A]]"
    by auto
  have p: "contents s2 (start_tokens self) = contents s (start_tokens self)"
    using fr assms(2) nl(2) by (simp add: contents_def)
  obtain new where n1: "contents s2 (next_addr s) = contents s (start_tokens self) @ new"
    and n2: "contents s2 (Suc (next_addr s)) = new"
    using loop_grows [OF generate(3)] nl(6,7) by auto
  have "int (length (contents s2 (Suc (next_addr s)))) = max 0 (max_tokens self + 1)"
    using loop_count [OF generate(3) [unfolded r2]] nl(7) by simp
  moreover have "contents s' a = contents s2 a" for a
    using generate(4) by (simp add: contents_def)
  moreover have "length words = length (contents s (start_tokens self)) + length new"
    using length_map_result [OF w] p n2 by simp
  ultimately show ?thesis
    using n1 n2 w out p fr nl(9) by (intro exI [of _ new] exI [of _ words]) simp
qed

subsection \<open>The prompt across invocations\<close>

lemma on_epoch_ends_prompt:
  "start_tokens self < next_addr s \<Longrightarrow> on_epoch_ends self calls s = (r, s') \<Longrightarrow>
     heap s' (start_tokens self) = heap s (start_tokens self) \<and> next_addr s \<le> next_addr s'"
proof (induction calls arbitrary: s)
  case Nil
  then show ?case by simp
next
  case (Cons c calls)
  obtain model epoch where c: "c = (model, epoch)" by (cases c)
  obtain r1 s1 where one: "on_epoch_end model self epoch s = (r1, s1)"
    by (cases "on_epoch_end model self epoch s")
  note p = on_epoch_end_prompt(1,2) [OF one Cons.prems(1)]
  show ?case
  proof (cases r1)
    case (Inl e)
    with Cons.prems(2) c one have "s' = s1" by simp
    with p show ?thesis by simp
  next
    case (Inr u)
    with Cons.prems(2) c one have "on_epoch_ends self calls s1 = (r, s')" by simp
    moreover have "start_tokens self < next_addr s1"
      using p(2) Cons.prems(1) by simp
    ultimately have "heap s' (start_tokens self) = heap s1 (start_tokens self)
        \<and> next_addr s1 \<le> next_addr s'"
      by (rule Cons.IH [rotated])
    with p show ?thesis by simp
  qed
qed

text \<open>
  Claim C9. \<open>on_epoch_end\<close> works on a copy of the prompt: when the list that
  \<open>self.start_tokens\<close> refers to exists in the store, then after any sequence of invocations
  (whatever the models, the epoch numbers and the outcomes) that list still has its original
  elements; a further invocation leaves it unchanged again, and its own working list, the
  object it creates first, consists of the original prompt followed by the tokens it appended.
\<close>

theorem prompt_unchanged:
  assumes "start_tokens self < next_addr s"
  shows "contents (snd (on_epoch_ends self calls s)) (start_tokens self)
           = contents s (start_tokens self)
       \<and> contents (snd (on_epoch_end model self epoch (snd (on_epoch_ends self calls s))))
            (start_tokens self) = contents s (start_tokens self)
       \<and> (\<exists>new. contents (snd (on_epoch_end model self epoch (snd (on_epoch_ends self calls s))))
                   (next_addr (snd (on_epoch_ends self calls s)))
                 = contents s (start_tokens self) @ new)"
proof -
  obtain r s' where a: "on_epoch_ends self calls s = (r, s')"
    by (cases "on_epoch_ends self calls s")
  obtain r2 s2 where b: "on_epoch_end model self epoch s' = (r2, s2)"
    by (cases "on_epoch_end model self epoch s'")
  note p = on_epoch_ends_prompt [OF assms a]
  then have al: "start_tokens self < next_addr s'" using assms by simp
  note q = on_epoch_end_prompt [OF b al]
  have "contents s' (start_tokens self) = contents s (start_tokens self)"
    using p by (simp add: contents_def)
  moreover have "contents s2 (start_tokens self) = contents s (start_tokens self)"
    using p q(1) by (simp add: contents_def)
  ultimately show ?thesis
    using q(3) a b by simp
qed

theorem prompt_unchanged_witness:
  "start_tokens (example_generator 0 2) < next_addr example_state
   \<and> contents (snd (on_epoch_ends (example_generator 0 2) [(example_model, 0), (example_model, 1)]
                      example_state)) 0 = [5, 12, 9]
   \<and> contents (snd (on_epoch_end example_model (example_generator 0 2) 2
          (snd (on_epoch_ends (example_generator 0 2) [(example_model, 0), (example_model, 1)]
                      example_state)))) 0 = [5, 12, 9]"
proof -
  have h: "start_tokens (example_generator 0 2) < next_addr example_state"
    by (simp add: example_generator_def example_state_def)
  have s: "start_tokens (example_generator 0 2) = 0"
    "contents example_state 0 = [5, 12, 9]"
    by (simp_all add: example_generator_def example_state_def contents_def)
  show ?thesis
    using h prompt_unchanged [OF h, of "[(example_model, 0), (example_model, 1)]" example_model 2]
    by (simp add: s)
qed

subsection \<open>The number of generated tokens\<close>

lemma input_window_index:
  assumes "toks \<noteq> []" and "input_window toks = (x, si)"
  shows "0 \<le> si \<and> si < int (length x) \<and> length x = maxlen"
proof -
  have "length x = maxlen"
    using input_window_length [of toks] assms(2) by simp
  moreover have "0 \<le> si \<and> si < int maxlen"
    using assms by (auto simp: input_window_def Let_def maxlen_def split: if_splits)
  ultimately show ?thesis by simp
qed

lemma example_loop_pass:
  assumes "random_state s 0 = 0" and "contents s toks \<noteq> []"
  shows "loop_pass example_model (example_generator b 2) toks g s =
           (Inr (), list_append toks 2 (list_append g 2 (snd (random_sample s))))"
proof -
  obtain x si where w: "input_window (contents s toks) = (x, si)"
    by (cases "input_window (contents s toks)")
  note i = input_window_index [OF assms(2) w]
  have row: "py_index (map (\<lambda>t. [1, 2, 9, 4 :: real]) x) si = Inr [1, 2, 9, 4]"
  proof -
    have "nat si < length x" using i by linarith
    then show ?thesis using i by (simp add: py_index_def)
  qed
  have "sample_from (example_generator b 2) [1, 2, 9, 4] s =
          (Inr (int (hd (top_indices [1, 2, 9, 4] (nat (k (example_generator b 2)))))),
           snd (random_sample s))"
    by (rule sample_from_zero) (simp_all add: example_generator_def assms(1))
  then have sf: "sample_from (example_generator b 2) [1, 2, 9, 4] s = (Inr 2, snd (random_sample s))"
    by (simp add: example_generator_def top_indices_example)
  show ?thesis
    by (simp add: loop_pass_def w example_model_def py_index_def [of "[_]"] row sf)
qed

lemma example_words_detokenize:
  "map_result (detokenize (example_generator b w)) [5, 12, 9, 2] =
     Inr [''this'', ''movie'', ''is'', ''the'']"
  by (simp add: detokenize_def example_generator_def example_words_def py_index_def)

text \<open>
  Claim C3 at the budget 0: with the prompt \<open>[5, 12, 9]\<close> and \<open>max_tokens = 0\<close> the loop
  runs once, because its test is \<open>num_tokens_generated <= self.max_tokens\<close>. The invocation
  succeeds, the list of generated tokens is \<open>[2]\<close>, the working sequence has four tokens and
  four words are printed, while the claim has the output equal to the prompt. In general a
  successful invocation generates \<open>max_tokens + 1\<close> tokens (\<open>on_epoch_end_generated\<close>).
\<close>

theorem budget_zero_generates_a_token:
  "fst (on_epoch_end example_model (example_generator 0 2) 0 example_state) = Inr ()
   \<and> contents (snd (on_epoch_end example_model (example_generator 0 2) 0 example_state)) 0
       = [5, 12, 9]
   \<and> contents (snd (on_epoch_end example_model (example_generator 0 2) 0 example_state)) 1
       = [5, 12, 9, 2]
   \<and> contents (snd (on_epoch_end example_model (example_generator 0 2) 0 example_state)) 2
       = [2]
   \<and> stdout (snd (on_epoch_end example_model (example_generator 0 2) 0 example_state))
       = [''generated text:'' @ [CHR 0x0A] @ ''this movie is the'' @ [CHR 0x0A]]"
proof -
  let ?g = "example_generator 0 2"
  define s0 where "s0 = snd (new_list (contents example_state 0) example_state)"
  define s1 where "s1 = snd (new_list [] s0)"
  have nl: "new_list (contents example_state 0) example_state = (Suc 0, s0)"
    "new_list [] s0 = (2, s1)"
    by (simp_all add: s1_def s0_def new_list_def example_state_def)
  have s1: "random_state s1 0 = 0" "contents s1 (Suc 0) = [5, 12, 9]" "contents s1 2 = []"
    "contents s1 0 = [5, 12, 9]" "stdout s1 = []"
    by (simp_all add: s1_def s0_def new_list_def example_state_def contents_def)
  define s3 where "s3 = list_append (Suc 0) 2 (list_append 2 2 (snd (random_sample s1)))"
  have pass: "loop_pass example_model ?g (Suc 0) 2 s1 = (Inr (), s3)"
    unfolding s3_def by (rule example_loop_pass) (simp_all add: s1)
  have s3: "contents s3 0 = [5, 12, 9]" "contents s3 (Suc 0) = [5, 12, 9, 2]" "contents s3 2 = [2]"
    "stdout s3 = []"
    using s1 by (simp_all add: s3_def contents_list_append list_append_def random_sample_def
        contents_def)
  have "on_epoch_end_loop example_model ?g (Suc 0) 2 0 s1 =
          on_epoch_end_loop example_model ?g (Suc 0) 2 (int (length (contents s3 2))) s3"
    by (rule loop_next [OF _ pass]) (simp add: example_generator_def)
  also have "\<dots> = (Inr (), s3)"
    by (rule loop_exit) (simp add: example_generator_def s3)
  finally have loop: "on_epoch_end_loop example_model ?g (Suc 0) 2 0 s1 = (Inr (), s3)" .
  have g: "print_every ?g = 1" "start_tokens ?g = 0"
    by (simp_all add: example_generator_def)
  have "on_epoch_end example_model ?g 0 example_state =
          (Inr (), print (''generated text:'' @ [CHR 0x0A] @ ''this movie is the'' @ [CHR 0x0A]) s3)"
    by (simp add: on_epoch_end_def g nl loop s3 example_words_detokenize del: map_result.simps)
  then show ?thesis
    using s3 by (simp add: print_def contents_def)
qed

subsection \<open>Token and position embedding\<close>

lemma map_result_Inr:
  "(\<And>x. x \<in> set xs \<Longrightarrow> f x = Inr (g x)) \<Longrightarrow> map_result f xs = Inr (map g xs)"
  by (induction xs) simp_all

lemma Embedding_call_in_range:
  "0 \<le> t \<Longrightarrow> t < int (length embeddings) \<Longrightarrow>
     Embedding_call embeddings t = Inr (embeddings ! nat t)"
  by (simp add: Embedding_call_def Let_def)

lemma Embedding_call_negative:
  "- int (length embeddings) \<le> t \<Longrightarrow> t < 0 \<Longrightarrow>
     Embedding_call embeddings t = Inr (embeddings ! nat (t + int (length embeddings)))"
  by (simp add: Embedding_call_def Let_def)

lemma Embedding_call_rows:
  assumes "\<And>t. t \<in> set row \<Longrightarrow> 0 \<le> t \<and> t < int (length embeddings)"
  shows "map_result (Embedding_call embeddings) row = Inr (map (\<lambda>t. embeddings ! nat t) row)"
  by (rule map_result_Inr) (use assms in \<open>simp add: Embedding_call_in_range\<close>)

lemma dim1_rect: "x \<noteq> [] \<Longrightarrow> (\<And>row. row \<in> set x \<Longrightarrow> length row = n) \<Longrightarrow> dim1 x = n"
  by (cases x) (simp_all add: dim1_def)

lemma embedding_rows:
  fixes self :: "('r::plus) TokenAndPositionEmbedding"
  assumes rect: "\<And>row. row \<in> set x \<Longrightarrow> length row = n"
    and pos: "n \<le> length (pos_emb self)"
    and tok: "\<And>row t. row \<in> set x \<Longrightarrow> t \<in> set row \<Longrightarrow> 0 \<le> t \<and> t < int (length (token_emb self))"
  shows "\<exists>out. TokenAndPositionEmbedding_call self x = Inr out \<and> length out = length x
           \<and> (\<forall>b < length x. length (out ! b) = n
                 \<and> (\<forall>p < n. out ! b ! p = token_emb self ! nat (x ! b ! p) + pos_emb self ! p))"
proof (cases "x = []")
  case True
  then show ?thesis
    by (simp add: TokenAndPositionEmbedding_call_def dim1_def)
next
  case False
  then have d: "dim1 x = n" using rect by (rule dim1_rect)
  have p: "map_result (Embedding_call (pos_emb self)) (map int [0..<n])
             = Inr (map (\<lambda>t. pos_emb self ! nat t) (map int [0..<n]))"
    by (rule Embedding_call_rows) (use pos in auto)
  have t: "map_result (map_result (Embedding_call (token_emb self))) x
             = Inr (map (map (\<lambda>t. token_emb self ! nat t)) x)"
    by (rule map_result_Inr) (use tok in \<open>auto intro!: Embedding_call_rows\<close>)
  define out where "out = map (\<lambda>row. map2 (+) row (map (\<lambda>t. pos_emb self ! nat t) (map int [0..<n])))
                (map (map (\<lambda>t. token_emb self ! nat t)) x)"
  have c: "TokenAndPositionEmbedding_call self x = Inr out"
    by (simp add: TokenAndPositionEmbedding_call_def d p t Let_def out_def)
  have l: "length out = length x" by (simp add: out_def)
  have "length (out ! b) = n
        \<and> (\<forall>p < n. out ! b ! p = token_emb self ! nat (x ! b ! p) + pos_emb self ! p)"
    if b: "b < length x" for b
  proof -
    have "length (x ! b) = n" using rect b by simp
    then show ?thesis using b by (simp add: out_def)
  qed
  then show ?thesis using c l by blast
qed

text \<open>
  Claim C6. For every batch of sequences of one length \<open>n\<close> that does not exceed the number
  of positions, with every token inside the token table, the embedding succeeds and its row
  at position \<open>p\<close> of every sequence is \<open>token_table[token[p]] + position_table[p]\<close>. The
  position is the offset inside the input at hand: on the window shifted by \<open>d\<close> tokens, the
  token that was at offset \<open>p + d\<close> is added to the position row \<open>p\<close>.
\<close>

theorem embedding_row_sum:
  fixes self :: "('r::plus) TokenAndPositionEmbedding"
  assumes "\<forall>row \<in> set x. length row = n"
    and "n \<le> length (pos_emb self)"
    and "\<forall>row \<in> set x. \<forall>t \<in> set row. 0 \<le> t \<and> t < int (length (token_emb self))"
  shows "(\<exists>out. TokenAndPositionEmbedding_call self x = Inr out \<and> length out = length x
            \<and> (\<forall>b < length x. length (out ! b) = n
                 \<and> (\<forall>p < n. out ! b ! p = token_emb self ! nat (x ! b ! p) + pos_emb self ! p)))
       \<and> (\<exists>out. TokenAndPositionEmbedding_call self (map (drop d) x) = Inr out
            \<and> (\<forall>b < length x. \<forall>p < n - d.
                   out ! b ! p = token_emb self ! nat (x ! b ! (p + d)) + pos_emb self ! p))"
proof
  show "\<exists>out. TokenAndPositionEmbedding_call self x = Inr out \<and> length out = length x
            \<and> (\<forall>b < length x. length (out ! b) = n
                 \<and> (\<forall>p < n. out ! b ! p = token_emb self ! nat (x ! b ! p) + pos_emb self ! p))"
    by (rule embedding_rows) (use assms in auto)
next
  have "\<exists>out. TokenAndPositionEmbedding_call self (map (drop d) x) = Inr out
          \<and> length out = length (map (drop d) x)
          \<and> (\<forall>b < length (map (drop d) x). length (out ! b) = n - d
                \<and> (\<forall>p < n - d. out ! b ! p
                      = token_emb self ! nat (map (drop d) x ! b ! p) + pos_emb self ! p))"
  proof (rule embedding_rows)
    show "length row = n - d" if "row \<in> set (map (drop d) x)" for row
      using that assms(1) by auto
    show "n - d \<le> length (pos_emb self)"
      using assms(2) by simp
    show "0 \<le> t \<and> t < int (length (token_emb self))"
      if "row \<in> set (map (drop d) x)" and "t \<in> set row" for row t
      using that assms(3) by (auto dest: in_set_dropD)
  qed
  then obtain out where c: "TokenAndPositionEmbedding_call self (map (drop d) x) = Inr out"
    and r: "\<And>b p. b < length x \<Longrightarrow> p < n - d \<Longrightarrow>
              out ! b ! p = token_emb self ! nat (drop d (x ! b) ! p) + pos_emb self ! p"
    by auto
  have "out ! b ! p = token_emb self ! nat (x ! b ! (p + d)) + pos_emb self ! p"
    if "b < length x" and "p < n - d" for b p
  proof -
    have "length (x ! b) = n" using assms(1) that(1) by simp
    then have "drop d (x ! b) ! p = x ! b ! (p + d)"
      using that(2) by (simp add: add.commute)
    then show ?thesis using r [OF that] by simp
  qed
  with c show "\<exists>out. TokenAndPositionEmbedding_call self (map (drop d) x) = Inr out
            \<and> (\<forall>b < length x. \<forall>p < n - d.
                   out ! b ! p = token_emb self ! nat (x ! b ! (p + d)) + pos_emb self ! p)"
    by blast
qed

theorem embedding_row_sum_witness:
  "(\<exists>out. TokenAndPositionEmbedding_call example_embedding [[2, 0, 1]] = Inr out
      \<and> out ! 0 ! 0 = 31 \<and> out ! 0 ! 1 = 12 \<and> out ! 0 ! 2 = 23)
   \<and> (\<exists>out. TokenAndPositionEmbedding_call example_embedding [[0, 1]] = Inr out
      \<and> out ! 0 ! 0 = 11 \<and> out ! 0 ! 1 = 22)"
proof -
  have h: "\<forall>row \<in> set [[2, 0, 1 :: int]]. length row = 3"
    "3 \<le> length (pos_emb example_embedding)"
    "\<forall>row \<in> set [[2, 0, 1 :: int]]. \<forall>t \<in> set row.
       0 \<le> t \<and> t < int (length (token_emb example_embedding))"
    by (simp_all add: example_embedding_def)
  from embedding_row_sum [OF h, of 1] obtain out out'
    where a: "TokenAndPositionEmbedding_call example_embedding [[2, 0, 1]] = Inr out"
      and b: "\<And>p. p < 3 \<Longrightarrow> out ! 0 ! p = token_emb example_embedding ! nat ([[2, 0, 1]] ! 0 ! p)
                    + pos_emb example_embedding ! p"
      and c: "TokenAndPositionEmbedding_call example_embedding (map (drop 1) [[2, 0, 1]]) = Inr out'"
      and d: "\<And>p. p < 3 - 1 \<Longrightarrow> out' ! 0 ! p
                    = token_emb example_embedding ! nat ([[2, 0, 1]] ! 0 ! (p + 1))
                    + pos_emb example_embedding ! p"
    by auto
  have "out ! 0 ! 0 = 31 \<and> out ! 0 ! 1 = 12 \<and> out ! 0 ! 2 = 23"
    using b [of 0] b [of 1] b [of 2] by (simp add: example_embedding_def)
  moreover have "out' ! 0 ! 0 = 11 \<and> out' ! 0 ! 1 = 22"
    using d [of 0] d [of 1] by (simp add: example_embedding_def)
  ultimately show ?thesis using a c by simp
qed

subsection \<open>The transformer block\<close>

lemma Dropout_call_disabled:
  "\<not> training \<or> rate \<le> 0 \<Longrightarrow> Dropout_call rate training random_dropout inputs = inputs"
  by (auto simp: Dropout_call_def)

lemma block_without_dropout:
  assumes "\<not> training \<or> (dropout1 self \<le> 0 \<and> dropout2 self \<le> 0)"
  shows "TransformerBlock_call self training noise1 noise2 inputs =
           (let attention_output =
                  map2 (\<lambda>x m. att self x x m) inputs
                    (causal_attention_mask (length inputs) (dim1 inputs) (dim1 inputs) dtype_bool);
                out1 = map (map (layernorm1 self)) (tensor_add inputs attention_output)
            in map (map (layernorm2 self)) (tensor_add out1 (map (map (ffn self)) out1)))"
proof -
  have "Dropout_call (dropout1 self) training noise1 t = t"
    and "Dropout_call (dropout2 self) training noise2 t = t" for t
    using assms by (auto intro: Dropout_call_disabled)
  then show ?thesis
    by (simp add: TransformerBlock_call_def Let_def)
qed

text \<open>
  Claim C7. With dropout disabled (the layers are not in training mode, or both rates are
  zero) the output of the block is a function of its weights and its input alone: it does not
  depend on the random maskings that the dropout layers would draw.
\<close>

theorem block_deterministic:
  assumes "\<not> training \<or> (dropout1 self \<le> 0 \<and> dropout2 self \<le> 0)"
  shows "TransformerBlock_call self training noise1 noise2 inputs
           = TransformerBlock_call self training noise1' noise2' inputs"
  by (simp add: block_without_dropout [OF assms])

theorem block_deterministic_witness:
  "TransformerBlock_call example_block False (map (map (\<lambda>r. 0))) (map (map (\<lambda>r. 0))) [[1, 2, 3]]
     = TransformerBlock_call example_block False (\<lambda>t. t) (\<lambda>t. t) [[1, 2, 3]]"
proof -
  have h: "\<not> False \<or> (dropout1 example_block \<le> 0 \<and> dropout2 example_block \<le> 0)"
    by simp
  show ?thesis by (rule block_deterministic [OF h])
qed

lemma example_block_dropout_matters:
  "TransformerBlock_call example_block True (map (map (\<lambda>r. 0))) (map (map (\<lambda>r. 0))) [[1, 2, 3]]
     \<noteq> TransformerBlock_call example_block True (\<lambda>t. t) (\<lambda>t. t) [[1, 2, 3]]"
  by (simp add: TransformerBlock_call_def Dropout_call_def Let_def example_block_def
      example_att_def dim1_def causal_attention_mask_def dtype_bool_def tensor_add_def upt_rec)

subsection \<open>The window of a long sequence\<close>

text \<open>
  Once the working sequence has reached \<open>maxlen\<close> tokens, the tokens appended to it no longer
  reach the model: the window and the sampled row stay the same.
\<close>

lemma input_window_frozen:
  "maxlen \<le> length toks \<Longrightarrow> input_window (toks @ extra) = (take maxlen toks, int maxlen - 1)"
  by (cases extra) (auto simp: input_window_def Let_def)

end
